theory Spec2Isabelle
  imports Main "HOL-Library.Word" "HOL-Library.Monad_Syntax" "HOL-Library.State_Monad"
begin

section \<open>The AirDcc transceiver control unit (AirDcc.h, AirDcc.cpp)\<close>

type_synonym u8 = "8 word"
type_synonym u32 = "32 word"

subsection \<open>The Arduino and SPI interface, as recorded calls\<close>

text \<open>
  The library drives the CC1101 only through calls to the Arduino core and its SPI
  object. Neither is part of the library, so every such call is recorded, in program
  order, with its arguments.
\<close>

datatype level = LOW | HIGH

datatype pin_mode = INPUT | OUTPUT

datatype bit_order = LSBFIRST | MSBFIRST

datatype spi_mode = SPI_MODE0 | SPI_MODE1 | SPI_MODE2 | SPI_MODE3

datatype SPISettings = SPISettings u32 bit_order spi_mode

datatype event =
    PinMode u8 pin_mode
  | DigitalWrite u8 level
  | Delay u32
  | SpiBegin
  | SpiBeginTransaction SPISettings
  | SpiTransfer u8
  | SpiEndTransaction

text \<open>
  Reading an array past its end is undefined behaviour in C++. The model marks the
  first such read (index and array length) and records nothing of what follows it.
\<close>

datatype fault = OutOfBoundsRead nat nat

text \<open>
  The private members of class \<open>AirDcc\<close>; all four are \<open>uint8_t\<close> in AirDcc.h. The
  source writes them \<open>_enable_pin\<close>, \<open>_transmit\<close>, \<open>_channel\<close> and \<open>_power\<close>; the
  leading underscore is written \<open>p_\<close> here. \<open>_transmit\<close> is tested as \<open>if (_transmit)\<close>:
  the direction is Transmit when it is non-zero.
\<close>

record AirDcc =
  p_enable_pin :: u8
  p_transmit :: u8
  p_channel :: u8
  p_power :: u8

text \<open>
  The state the operations run in: the object, the calls made so far, and the fault, if
  execution has left defined behaviour.
\<close>

record world =
  self :: AirDcc
  calls :: "event list"
  ub :: "fault option"

type_synonym 'a prog = "(world, 'a) state"

abbreviation ret :: "'a \<Rightarrow> 'a prog" where
  "ret \<equiv> State_Monad.return"

text \<open>A step with an effect: it happens only while no fault has occurred.\<close>

definition action :: "(world \<Rightarrow> world) \<Rightarrow> unit prog" where
  "action f = State (\<lambda>w. ((), case ub w of None \<Rightarrow> f w | Some e \<Rightarrow> w))"

definition emit :: "event \<Rightarrow> unit prog" where
  "emit e = action (\<lambda>w. w\<lparr>calls := calls w @ [e]\<rparr>)"

definition pinMode :: "u8 \<Rightarrow> pin_mode \<Rightarrow> unit prog" where
  "pinMode pin m = emit (PinMode pin m)"

definition digitalWrite :: "u8 \<Rightarrow> level \<Rightarrow> unit prog" where
  "digitalWrite pin v = emit (DigitalWrite pin v)"

definition delay :: "u32 \<Rightarrow> unit prog" where
  "delay ms = emit (Delay ms)"

definition SPI_begin :: "unit prog" where
  "SPI_begin = emit SpiBegin"

definition SPI_beginTransaction :: "SPISettings \<Rightarrow> unit prog" where
  "SPI_beginTransaction s = emit (SpiBeginTransaction s)"

definition SPI_transfer :: "u8 \<Rightarrow> unit prog" where
  "SPI_transfer b = emit (SpiTransfer b)"

definition SPI_endTransaction :: "unit prog" where
  "SPI_endTransaction = emit SpiEndTransaction"

subsection \<open>Member access\<close>

definition read_member :: "(AirDcc \<Rightarrow> 'a) \<Rightarrow> 'a prog" where
  "read_member f = State (\<lambda>w. (f (self w), w))"

definition write_member :: "(AirDcc \<Rightarrow> AirDcc) \<Rightarrow> unit prog" where
  "write_member f = action (\<lambda>w. w\<lparr>self := f (self w)\<rparr>)"

text \<open>
  \<open>table[i]\<close> on a fixed array, indexed by a \<open>uint8_t\<close>. In range it yields the entry;
  out of range the read is the fault (the value returned then is never used, since
  nothing is recorded after a fault).
\<close>

definition index :: "u8 list \<Rightarrow> u8 \<Rightarrow> u8 prog" where
  "index table i = State (\<lambda>w.
     if unat i < length table then (table ! unat i, w)
     else (0, case ub w of None \<Rightarrow> w\<lparr>ub := Some (OutOfBoundsRead (unat i) (length table))\<rparr>
                | Some e \<Rightarrow> w))"

subsection \<open>Defines and constants (AirDcc.cpp, lines 35 to 58)\<close>

definition RX :: u8 where "RX = 0x34"
definition TX :: u8 where "TX = 0x35"
definition STOP :: u8 where "STOP = 0x36"
definition PATABLE :: u8 where "PATABLE = 0x3E"
definition CHAN :: u8 where "CHAN = 0x0A"

definition initData :: "u8 list" where
  "initData = [0x40, 0x2E, 0x2E, 0x0D, 0x07, 0xD3, 0x91, 0xFF, 0x04,
               0x32, 0x00, 0x4B, 0x06, 0x00, 0x22, 0xB7, 0x55, 0x8A,
               0x93, 0x00, 0x23, 0x3B, 0x50, 0x07, 0x30, 0x18, 0x16,
               0x6C, 0x03, 0x40, 0x91, 0x87, 0x6B, 0xF8, 0x56, 0x10,
               0xE9, 0x2A, 0x00, 0x1F, 0x40, 0x00, 0x59, 0x7F, 0x3F,
               0x81, 0x35, 0x09]"

definition channels :: "u8 list" where
  "channels = [0x4B, 0x45, 0x33, 0x27, 0x1B, 0x15, 0x0F, 0x03, 0x5E,
               0x58, 0x52, 0x3E, 0x39, 0x2C, 0x21, 0x89, 0x37]"

definition powers :: "u8 list" where
  "powers = [0x03, 0x15, 0x1C, 0x27, 0x66, 0x8E, 0x89,
             0xCD, 0xC4, 0xC1, 0xC0]"

subsection \<open>The constructor and the three operations\<close>

definition AirDcc_ctor :: "u8 \<Rightarrow> unit prog" where
  "AirDcc_ctor enable_pin = do {
     write_member (\<lambda>s. s\<lparr>p_enable_pin := enable_pin\<rparr>);
     pinMode enable_pin OUTPUT
   }"

text \<open>The loop \<open>for (int i=0; i < sizeof(data); i++) SPI.transfer(data[i]);\<close> from index \<open>i\<close> on.\<close>

function transfer_all :: "u8 list \<Rightarrow> nat \<Rightarrow> unit prog" where
  "transfer_all data i =
     (if i < length data then do { SPI_transfer (data ! i); transfer_all data (i + 1) }
      else ret ())"
  by pat_completeness auto
termination
  by (relation "measure (\<lambda>(data, i). length data - i)") auto

text \<open>
  \<open>startModem(uint8_t channel, bool transmit, uint8_t power)\<close>; the third parameter is
  written \<open>pwr\<close>. Storing the \<open>bool\<close> in the \<open>uint8_t\<close> member gives 0 or 1.
\<close>

definition startModem :: "u8 \<Rightarrow> bool \<Rightarrow> u8 \<Rightarrow> unit prog" where
  "startModem channel transmit pwr = do {
     write_member (\<lambda>s. s\<lparr>p_channel := channel\<rparr>);
     write_member (\<lambda>s. s\<lparr>p_transmit := of_bool transmit\<rparr>);
     write_member (\<lambda>s. s\<lparr>p_power := pwr\<rparr>);

     let powerCode = 0x89;
     c \<leftarrow> read_member p_channel;
     channelCode \<leftarrow> index channels c;
     let mode = RX;

     t \<leftarrow> read_member p_transmit;
     (mode, powerCode) \<leftarrow>
       (if t \<noteq> 0 then do {
          p \<leftarrow> read_member p_power;
          pc \<leftarrow> index powers p;
          ret (TX, pc)
        } else ret (mode, powerCode));

     pin \<leftarrow> read_member p_enable_pin;
     digitalWrite pin HIGH;

     let settings = SPISettings 8000000 MSBFIRST SPI_MODE0;

     SPI_begin;
     delay 100;
     SPI_beginTransaction settings;

     digitalWrite pin LOW;
     SPI_transfer STOP;
     digitalWrite pin HIGH;

     digitalWrite pin LOW;
     transfer_all initData 0;
     digitalWrite pin HIGH;

     digitalWrite pin LOW;
     SPI_transfer PATABLE;
     SPI_transfer powerCode;
     digitalWrite pin HIGH;

     digitalWrite pin LOW;
     SPI_transfer CHAN;
     SPI_transfer channelCode;
     digitalWrite pin HIGH;

     digitalWrite pin LOW;
     SPI_transfer mode;
     digitalWrite pin HIGH;

     SPI_endTransaction
   }"

definition changeChannel :: "u8 \<Rightarrow> unit prog" where
  "changeChannel channel = do {
     write_member (\<lambda>s. s\<lparr>p_channel := channel\<rparr>);

     c \<leftarrow> read_member p_channel;
     channelCode \<leftarrow> index channels c;
     p \<leftarrow> read_member p_power;
     powerCode \<leftarrow> index powers p;
     t \<leftarrow> read_member p_transmit;
     let mode = (if t \<noteq> 0 then TX else RX);

     let settings = SPISettings 8000000 MSBFIRST SPI_MODE0;

     SPI_begin;
     SPI_beginTransaction settings;

     pin \<leftarrow> read_member p_enable_pin;

     digitalWrite pin LOW;
     SPI_transfer STOP;
     digitalWrite pin HIGH;

     digitalWrite pin LOW;
     SPI_transfer PATABLE;
     SPI_transfer powerCode;
     digitalWrite pin HIGH;

     digitalWrite pin LOW;
     SPI_transfer CHAN;
     SPI_transfer channelCode;
     digitalWrite pin HIGH;

     digitalWrite pin LOW;
     SPI_transfer mode;
     digitalWrite pin HIGH;

     SPI_endTransaction
   }"

definition keepAlive :: "unit prog" where
  "keepAlive = do {
     let settings = SPISettings 8000000 MSBFIRST SPI_MODE0;

     SPI_begin;
     SPI_beginTransaction settings;

     pin \<leftarrow> read_member p_enable_pin;
     digitalWrite pin LOW;

     t \<leftarrow> read_member p_transmit;
     (if t \<noteq> 0 then SPI_transfer TX
      else SPI_transfer RX);

     digitalWrite pin HIGH;
     SPI_endTransaction
   }"

subsection \<open>Sequences of operations\<close>

datatype op = StartModem u8 bool u8 | ChangeChannel u8 | KeepAlive

fun exec :: "op \<Rightarrow> unit prog" where
  "exec (StartModem channel transmit pwr) = startModem channel transmit pwr"
| "exec (ChangeChannel channel) = changeChannel channel"
| "exec KeepAlive = keepAlive"

fun run :: "op list \<Rightarrow> unit prog" where
  "run [] = ret ()"
| "run (x # xs) = do { exec x; run xs }"

fun times :: "nat \<Rightarrow> unit prog \<Rightarrow> unit prog" where
  "times 0 m = ret ()"
| "times (Suc n) m = do { m; times n m }"

subsection \<open>Observing the recorded calls\<close>

text \<open>The calls a program adds to the record when started in world \<open>w\<close>.\<close>

definition emitted :: "unit prog \<Rightarrow> world \<Rightarrow> event list" where
  "emitted m w = drop (length (calls w)) (calls (snd (run_state m w)))"

text \<open>
  The framed transactions of a call sequence on select line \<open>pin\<close>: the bytes transferred
  between each write of LOW and the next write of HIGH to that pin. The second argument
  is the open frame, if any. The result is \<open>None\<close> when a byte is transferred while the
  line is not held low, when LOW is written twice in a row, or when the sequence ends
  with the line still low.
\<close>

fun frames_from :: "u8 \<Rightarrow> u8 list option \<Rightarrow> event list \<Rightarrow> u8 list list option" where
  "frames_from pin cur [] = (case cur of None \<Rightarrow> Some [] | Some bs \<Rightarrow> None)"
| "frames_from pin cur (DigitalWrite p LOW # es) =
     (if p = pin then (case cur of None \<Rightarrow> frames_from pin (Some []) es | Some bs \<Rightarrow> None)
      else frames_from pin cur es)"
| "frames_from pin cur (DigitalWrite p HIGH # es) =
     (if p = pin then
        (case cur of None \<Rightarrow> frames_from pin None es
         | Some bs \<Rightarrow> map_option ((#) bs) (frames_from pin None es))
      else frames_from pin cur es)"
| "frames_from pin cur (SpiTransfer b # es) =
     (case cur of None \<Rightarrow> None | Some bs \<Rightarrow> frames_from pin (Some (bs @ [b])) es)"
| "frames_from pin cur (e # es) = frames_from pin cur es"

definition frames :: "u8 \<Rightarrow> event list \<Rightarrow> u8 list list option" where
  "frames pin es = frames_from pin None es"

text \<open>The settings of every \<open>SPI.beginTransaction\<close> in a call sequence.\<close>

fun settings_used :: "event list \<Rightarrow> SPISettings list" where
  "settings_used [] = []"
| "settings_used (SpiBeginTransaction s # es) = s # settings_used es"
| "settings_used (e # es) = settings_used es"

text \<open>The delays in a call sequence.\<close>

fun delays :: "event list \<Rightarrow> u32 list" where
  "delays [] = []"
| "delays (Delay ms # es) = ms # delays es"
| "delays (e # es) = delays es"

text \<open>The bytes put on the bus by a call sequence.\<close>

fun bytes_sent :: "event list \<Rightarrow> u8 list" where
  "bytes_sent [] = []"
| "bytes_sent (SpiTransfer b # es) = b # bytes_sent es"
| "bytes_sent (e # es) = bytes_sent es"

text \<open>The level of \<open>pin\<close> after a call sequence, given its level before (if known).\<close>

fun select_line :: "u8 \<Rightarrow> level option \<Rightarrow> event list \<Rightarrow> level option" where
  "select_line pin v [] = v"
| "select_line pin v (DigitalWrite p x # es) =
     (if p = pin then select_line pin (Some x) es else select_line pin v es)"
| "select_line pin v (e # es) = select_line pin v es"

text \<open>Whether an SPI transaction is open after a call sequence, given whether one was before.\<close>

fun txn_open :: "bool \<Rightarrow> event list \<Rightarrow> bool" where
  "txn_open b [] = b"
| "txn_open b (SpiBeginTransaction s # es) = txn_open True es"
| "txn_open b (SpiEndTransaction # es) = txn_open False es"
| "txn_open b (e # es) = txn_open b es"

subsection \<open>What the specification expects of the handle\<close>

text \<open>
  The members the specification says the handle holds after a sequence of operations:
  \<open>startModem\<close> stores its three arguments, \<open>changeChannel\<close> the new channel only,
  \<open>keepAlive\<close> nothing.
\<close>

fun last_pushed :: "AirDcc \<Rightarrow> op list \<Rightarrow> AirDcc" where
  "last_pushed h [] = h"
| "last_pushed h (StartModem channel transmit pwr # xs) =
     last_pushed (h\<lparr>p_channel := channel, p_transmit := of_bool transmit, p_power := pwr\<rparr>) xs"
| "last_pushed h (ChangeChannel channel # xs) = last_pushed (h\<lparr>p_channel := channel\<rparr>) xs"
| "last_pushed h (KeepAlive # xs) = last_pushed h xs"

text \<open>
  What a sequence of framed transactions pushed to the device: the values of the two-byte
  frames addressed to register \<open>r\<close>, and the mode codes sent as one-byte frames.
\<close>

fun reg_writes :: "u8 \<Rightarrow> u8 list list \<Rightarrow> u8 list" where
  "reg_writes r [] = []"
| "reg_writes r ([a, v] # fs) = (if a = r then v # reg_writes r fs else reg_writes r fs)"
| "reg_writes r (f # fs) = reg_writes r fs"

fun mode_writes :: "u8 list list \<Rightarrow> u8 list" where
  "mode_writes [] = []"
| "mode_writes ([m] # fs) = (if m = RX \<or> m = TX then m # mode_writes fs else mode_writes fs)"
| "mode_writes (f # fs) = mode_writes fs"

text \<open>
  The handle reflects the last values pushed: the last channel-register write is the table
  entry of the stored channel, the last mode code is that of the stored direction, and in
  transmit direction the last power-register write is the table entry of the stored power.
\<close>

definition device_agrees :: "AirDcc \<Rightarrow> u8 list list \<Rightarrow> bool" where
  "device_agrees h fs =
     (reg_writes CHAN fs \<noteq> [] \<and> last (reg_writes CHAN fs) = channels ! unat (p_channel h)
      \<and> mode_writes fs \<noteq> [] \<and> last (mode_writes fs) = (if p_transmit h \<noteq> 0 then TX else RX)
      \<and> (if p_transmit h \<noteq> 0
          then reg_writes PATABLE fs \<noteq> []
               \<and> last (reg_writes PATABLE fs) = powers ! unat (p_power h)
          else True))"

text \<open>
  The same for the power without regard to the direction: the last power-register write is
  the table entry of the stored power.
\<close>

definition power_pushed :: "AirDcc \<Rightarrow> u8 list list \<Rightarrow> bool" where
  "power_pushed h fs =
     (reg_writes PATABLE fs \<noteq> [] \<and> last (reg_writes PATABLE fs) = powers ! unat (p_power h))"

text \<open>
  A call that rejects its input: it returns having read no table entry past the end,
  and with the handle and the bus as they were.
\<close>

definition rejected :: "world \<Rightarrow> world \<Rightarrow> bool" where
  "rejected w w' = (ub w' = None \<and> self w' = self w \<and> calls w' = calls w)"

subsection \<open>A concrete handle\<close>

text \<open>
  The example sketch declares \<open>AirDcc Modem(enablePin)\<close> with \<open>enablePin = 10\<close> at
  namespace scope: the object's storage is zero before the constructor runs.
\<close>

definition zeroed :: world where
  "zeroed = \<lparr>self = \<lparr>p_enable_pin = 0, p_transmit = 0, p_channel = 0, p_power = 0\<rparr>,
             calls = [], ub = None\<rparr>"

definition booted :: world where
  "booted = snd (run_state (AirDcc_ctor 10) zeroed)"

section \<open>Running the operations\<close>

subsection \<open>The primitives\<close>

lemma run_action:
  "ub w = None \<Longrightarrow> run_state (action f) w = ((), f w)"
  by (simp add: action_def)

lemma run_action_faulted:
  "ub w = Some e \<Longrightarrow> run_state (action f) w = ((), w)"
  by (simp add: action_def)

lemma run_emit:
  "ub w = None \<Longrightarrow> run_state (emit e) w = ((), w\<lparr>calls := calls w @ [e]\<rparr>)"
  by (simp add: emit_def run_action)

lemma run_read_member: "run_state (read_member f) w = (f (self w), w)"
  by (simp add: read_member_def)

lemma run_write_member:
  "ub w = None \<Longrightarrow> run_state (write_member f) w = ((), w\<lparr>self := f (self w)\<rparr>)"
  by (simp add: write_member_def run_action)

lemma run_index_ok:
  "unat i < length table \<Longrightarrow> run_state (index table i) w = (table ! unat i, w)"
  by (simp add: index_def)

lemma run_index_bad:
  "\<not> unat i < length table \<Longrightarrow> ub w = None \<Longrightarrow>
   run_state (index table i) w = (0, w\<lparr>ub := Some (OutOfBoundsRead (unat i) (length table))\<rparr>)"
  by (simp add: index_def)

lemma run_index_faulted:
  "ub w = Some e \<Longrightarrow> run_state (index table i) w = (if unat i < length table then table ! unat i else 0, w)"
  by (simp add: index_def)

lemmas prims = pinMode_def digitalWrite_def delay_def SPI_begin_def SPI_beginTransaction_def
  SPI_transfer_def SPI_endTransaction_def

lemma run_transfer_all:
  "ub w = None \<Longrightarrow> run_state (transfer_all data i) w =
     ((), w\<lparr>calls := calls w @ map SpiTransfer (drop i data)\<rparr>)"
proof (induction data i arbitrary: w rule: transfer_all.induct)
  case (1 data i)
  show ?case
  proof (cases "i < length data")
    case True
    have "run_state (transfer_all data i) w =
          run_state (transfer_all data (i + 1)) (w\<lparr>calls := calls w @ [SpiTransfer (data ! i)]\<rparr>)"
      using True "1.prems" by (subst transfer_all.simps) (simp add: SPI_transfer_def run_emit del: transfer_all.simps)
    also have "\<dots> = ((), w\<lparr>calls := calls w @ SpiTransfer (data ! i) # map SpiTransfer (drop (i + 1) data)\<rparr>)"
      using "1.IH" [OF True, of "w\<lparr>calls := calls w @ [SpiTransfer (data ! i)]\<rparr>"] "1.prems"
      by (simp del: transfer_all.simps)
    finally show ?thesis
      using True by (simp add: Cons_nth_drop_Suc [symmetric] del: transfer_all.simps)
  next
    case False
    then show ?thesis by (subst transfer_all.simps) (simp del: transfer_all.simps)
  qed
qed


lemma booted_eq:
  "booted = \<lparr>self = \<lparr>p_enable_pin = 10, p_transmit = 0, p_channel = 0, p_power = 0\<rparr>,
             calls = [PinMode 10 OUTPUT], ub = None\<rparr>"
  by (simp add: booted_def zeroed_def AirDcc_ctor_def pinMode_def run_emit run_write_member)

subsection \<open>What each operation does to the world\<close>

lemma length_channels: "length channels = 17" by (simp add: channels_def)
lemma length_powers: "length powers = 11" by (simp add: powers_def)
lemma length_initData: "length initData = 48" by (simp add: initData_def)

lemma startModem_ok:
  assumes "ub w = None" "unat c < 17" "t \<Longrightarrow> unat p < 11"
  shows "snd (run_state (startModem c t p) w) =
    w\<lparr>self := (self w)\<lparr>p_channel := c, p_transmit := of_bool t, p_power := p\<rparr>,
      calls := calls w @
        [DigitalWrite (p_enable_pin (self w)) HIGH, SpiBegin, Delay 100,
         SpiBeginTransaction (SPISettings 8000000 MSBFIRST SPI_MODE0),
         DigitalWrite (p_enable_pin (self w)) LOW, SpiTransfer STOP,
         DigitalWrite (p_enable_pin (self w)) HIGH,
         DigitalWrite (p_enable_pin (self w)) LOW] @ map SpiTransfer initData @
        [DigitalWrite (p_enable_pin (self w)) HIGH,
         DigitalWrite (p_enable_pin (self w)) LOW, SpiTransfer PATABLE,
         SpiTransfer (if t then powers ! unat p else 0x89),
         DigitalWrite (p_enable_pin (self w)) HIGH,
         DigitalWrite (p_enable_pin (self w)) LOW, SpiTransfer CHAN,
         SpiTransfer (channels ! unat c),
         DigitalWrite (p_enable_pin (self w)) HIGH,
         DigitalWrite (p_enable_pin (self w)) LOW, SpiTransfer (if t then TX else RX),
         DigitalWrite (p_enable_pin (self w)) HIGH,
         SpiEndTransaction]\<rparr>"
  using assms
  by (cases t) (simp_all add: startModem_def prims run_emit run_read_member run_write_member run_index_ok run_transfer_all length_channels length_powers
      del: transfer_all.simps)


lemma run_emit_faulted:
  "ub w = Some x \<Longrightarrow> run_state (emit e) w = ((), w)"
  by (simp add: emit_def run_action_faulted)

lemma run_write_member_faulted:
  "ub w = Some x \<Longrightarrow> run_state (write_member f) w = ((), w)"
  by (simp add: write_member_def run_action_faulted)

lemma run_transfer_all_faulted:
  "ub w = Some x \<Longrightarrow> run_state (transfer_all data i) w = ((), w)"
proof (induction data i rule: transfer_all.induct)
  case (1 data i)
  show ?case
  proof (cases "i < length data")
    case True
    then show ?thesis
      using "1.IH" [OF True "1.prems"] "1.prems"
      by (subst transfer_all.simps) (simp add: SPI_transfer_def run_emit_faulted del: transfer_all.simps)
  next
    case False
    then show ?thesis by (subst transfer_all.simps) (simp del: transfer_all.simps)
  qed
qed

lemmas run_simps = prims run_emit run_read_member run_write_member run_index_ok run_index_bad
  run_transfer_all length_channels length_powers

lemmas faulted_simps = prims run_emit_faulted run_read_member run_write_member_faulted run_index_faulted
  run_transfer_all_faulted

lemma startModem_bad_channel:
  assumes "ub w = None" "\<not> unat c < 17"
  shows "snd (run_state (startModem c t p) w) =
    w\<lparr>self := (self w)\<lparr>p_channel := c, p_transmit := of_bool t, p_power := p\<rparr>,
      ub := Some (OutOfBoundsRead (unat c) 17)\<rparr>"
  using assms
  by (cases t)
     (simp_all add: startModem_def run_simps faulted_simps del: transfer_all.simps)

lemma startModem_bad_power:
  assumes "ub w = None" "unat c < 17" "t" "\<not> unat p < 11"
  shows "snd (run_state (startModem c t p) w) =
    w\<lparr>self := (self w)\<lparr>p_channel := c, p_transmit := of_bool t, p_power := p\<rparr>,
      ub := Some (OutOfBoundsRead (unat p) 11)\<rparr>"
  using assms
  by (simp add: startModem_def run_simps faulted_simps del: transfer_all.simps)

lemma startModem_faulted:
  "ub w = Some e \<Longrightarrow> snd (run_state (startModem c t p) w) = w"
  by (simp add: startModem_def faulted_simps del: transfer_all.simps)

lemma changeChannel_ok:
  assumes "ub w = None" "unat c < 17" "unat (p_power (self w)) < 11"
  shows "snd (run_state (changeChannel c) w) =
    w\<lparr>self := (self w)\<lparr>p_channel := c\<rparr>,
      calls := calls w @
        [SpiBegin, SpiBeginTransaction (SPISettings 8000000 MSBFIRST SPI_MODE0),
         DigitalWrite (p_enable_pin (self w)) LOW, SpiTransfer STOP,
         DigitalWrite (p_enable_pin (self w)) HIGH,
         DigitalWrite (p_enable_pin (self w)) LOW, SpiTransfer PATABLE,
         SpiTransfer (powers ! unat (p_power (self w))),
         DigitalWrite (p_enable_pin (self w)) HIGH,
         DigitalWrite (p_enable_pin (self w)) LOW, SpiTransfer CHAN,
         SpiTransfer (channels ! unat c),
         DigitalWrite (p_enable_pin (self w)) HIGH,
         DigitalWrite (p_enable_pin (self w)) LOW,
         SpiTransfer (if p_transmit (self w) \<noteq> 0 then TX else RX),
         DigitalWrite (p_enable_pin (self w)) HIGH,
         SpiEndTransaction]\<rparr>"
  using assms
  by (simp add: changeChannel_def run_simps)

lemma changeChannel_bad_channel:
  assumes "ub w = None" "\<not> unat c < 17"
  shows "snd (run_state (changeChannel c) w) =
    w\<lparr>self := (self w)\<lparr>p_channel := c\<rparr>, ub := Some (OutOfBoundsRead (unat c) 17)\<rparr>"
  using assms
  by (simp add: changeChannel_def run_simps faulted_simps)

lemma changeChannel_bad_power:
  assumes "ub w = None" "unat c < 17" "\<not> unat (p_power (self w)) < 11"
  shows "snd (run_state (changeChannel c) w) =
    w\<lparr>self := (self w)\<lparr>p_channel := c\<rparr>,
      ub := Some (OutOfBoundsRead (unat (p_power (self w))) 11)\<rparr>"
  using assms
  by (simp add: changeChannel_def run_simps faulted_simps)

lemma changeChannel_faulted:
  "ub w = Some e \<Longrightarrow> snd (run_state (changeChannel c) w) = w"
  by (simp add: changeChannel_def faulted_simps)

lemma keepAlive_ok:
  assumes "ub w = None"
  shows "snd (run_state keepAlive w) =
    w\<lparr>calls := calls w @
        [SpiBegin, SpiBeginTransaction (SPISettings 8000000 MSBFIRST SPI_MODE0),
         DigitalWrite (p_enable_pin (self w)) LOW,
         SpiTransfer (if p_transmit (self w) \<noteq> 0 then TX else RX),
         DigitalWrite (p_enable_pin (self w)) HIGH,
         SpiEndTransaction]\<rparr>"
  using assms
  by (simp add: keepAlive_def run_simps)

lemma keepAlive_faulted:
  "ub w = Some e \<Longrightarrow> snd (run_state keepAlive w) = w"
  by (simp add: keepAlive_def faulted_simps)

section \<open>Properties of the operations\<close>

subsection \<open>Reading the record\<close>

lemma emitted_eq:
  "calls (snd (run_state m w)) = calls w @ es \<Longrightarrow> emitted m w = es"
  by (simp add: emitted_def)

lemma emitted_faulted:
  "snd (run_state m w) = w \<Longrightarrow> emitted m w = []"
  by (simp add: emitted_def)

lemma frames_from_transfers:
  "frames_from pin (Some bs) (map SpiTransfer xs @ es) = frames_from pin (Some (bs @ xs)) es"
  by (induction xs arbitrary: bs) simp_all

lemma bytes_sent_append: "bytes_sent (xs @ ys) = bytes_sent xs @ bytes_sent ys"
  by (induction xs rule: bytes_sent.induct) simp_all

lemma bytes_sent_transfers: "bytes_sent (map SpiTransfer xs) = xs"
  by (induction xs) simp_all

subsection \<open>keepAlive\<close>

lemma keepAlive_emitted:
  "ub w = None \<Longrightarrow> emitted keepAlive w =
     [SpiBegin, SpiBeginTransaction (SPISettings 8000000 MSBFIRST SPI_MODE0),
      DigitalWrite (p_enable_pin (self w)) LOW,
      SpiTransfer (if p_transmit (self w) \<noteq> 0 then TX else RX),
      DigitalWrite (p_enable_pin (self w)) HIGH,
      SpiEndTransaction]"
  by (rule emitted_eq) (simp add: keepAlive_ok)

text \<open>
  Claim C4. From every handle state, \<open>keepAlive\<close> puts exactly one framed transaction on the
  bus, whose only byte is the mode code of the stored direction (TX when \<open>_transmit\<close> is
  non-zero, RX otherwise), and it leaves the stored channel, power and direction as they were.
\<close>

theorem keepAlive_one_mode_frame:
  assumes "ub w = None"
  shows "frames (p_enable_pin (self w)) (emitted keepAlive w) =
           Some [[if p_transmit (self w) \<noteq> 0 then TX else RX]]
       \<and> bytes_sent (emitted keepAlive w) = [if p_transmit (self w) \<noteq> 0 then TX else RX]
       \<and> self (snd (run_state keepAlive w)) = self w
       \<and> ub (snd (run_state keepAlive w)) = None"
  using assms by (simp add: keepAlive_emitted keepAlive_ok frames_def)

theorem keepAlive_one_mode_frame_witness:
  "ub booted = None
   \<and> frames 10 (emitted keepAlive booted) = Some [[0x34]]
   \<and> bytes_sent (emitted keepAlive booted) = [0x34]
   \<and> self (snd (run_state keepAlive booted)) = self booted
   \<and> ub (snd (run_state keepAlive booted)) = None"
  using keepAlive_one_mode_frame [of booted] by (simp add: booted_eq RX_def)

lemma keepAlive_keeps:
  "self (snd (run_state keepAlive w)) = self w \<and> ub (snd (run_state keepAlive w)) = ub w"
  by (cases "ub w") (simp_all add: keepAlive_ok keepAlive_faulted)

lemma emitted_keepAlive_cong:
  assumes "self w' = self w" "ub w' = ub w"
  shows "emitted keepAlive w' = emitted keepAlive w"
proof (cases "ub w")
  case None
  then show ?thesis using assms by (simp add: keepAlive_emitted)
next
  case (Some e)
  then show ?thesis using assms by (simp add: emitted_faulted keepAlive_faulted)
qed

lemma times_keepAlive_keeps:
  "self (snd (run_state (times n keepAlive) w)) = self w
   \<and> ub (snd (run_state (times n keepAlive) w)) = ub w"
proof (induction n arbitrary: w)
  case 0
  show ?case by simp
next
  case (Suc n)
  obtain u w1 where r: "run_state keepAlive w = (u, w1)" by (cases "run_state keepAlive w")
  then have k: "self w1 = self w \<and> ub w1 = ub w" using keepAlive_keeps [of w] by simp
  have "run_state (times (Suc n) keepAlive) w = run_state (times n keepAlive) w1"
    using r by simp
  with Suc.IH [of w1] k show ?case by simp
qed

text \<open>
  Claim C5. However many times \<open>keepAlive\<close> has already been called in a row, from any
  handle state, the next call records the same calls, hence the same bytes, as the first.
\<close>

theorem keepAlive_repeatable:
  "emitted keepAlive (snd (run_state (times n keepAlive) w)) = emitted keepAlive w"
  using times_keepAlive_keeps [of n w] by (intro emitted_keepAlive_cong) simp_all

theorem keepAlive_repeatable_witness:
  "emitted keepAlive (snd (run_state (times 3 keepAlive) booted)) =
     [SpiBegin, SpiBeginTransaction (SPISettings 8000000 MSBFIRST SPI_MODE0),
      DigitalWrite 10 LOW, SpiTransfer 0x34, DigitalWrite 10 HIGH, SpiEndTransaction]"
  using keepAlive_repeatable [of 3 booted] by (simp add: keepAlive_emitted booted_eq RX_def)

text \<open>
  Claim C10. What \<open>keepAlive\<close> puts on the bus depends on the stored direction only: two
  handle states with the same direction send the same bytes, whatever their stored channel
  and power; on the same select line the recorded calls are the same altogether.
\<close>

theorem keepAlive_direction_only:
  assumes "ub w1 = None" "ub w2 = None"
    and "(p_transmit (self w1) \<noteq> 0) = (p_transmit (self w2) \<noteq> 0)"
  shows "bytes_sent (emitted keepAlive w1) = bytes_sent (emitted keepAlive w2)
       \<and> (p_enable_pin (self w1) = p_enable_pin (self w2) \<longrightarrow>
            emitted keepAlive w1 = emitted keepAlive w2)"
  using assms by (simp add: keepAlive_emitted)

theorem keepAlive_direction_only_witness:
  "ub booted = None
   \<and> ub (booted\<lparr>self := (self booted)\<lparr>p_channel := 16, p_power := 200\<rparr>\<rparr>) = None
   \<and> (p_transmit (self booted) \<noteq> 0) =
       (p_transmit (self (booted\<lparr>self := (self booted)\<lparr>p_channel := 16, p_power := 200\<rparr>\<rparr>)) \<noteq> 0)
   \<and> bytes_sent (emitted keepAlive booted) = [0x34]
   \<and> bytes_sent (emitted keepAlive (booted\<lparr>self := (self booted)\<lparr>p_channel := 16, p_power := 200\<rparr>\<rparr>)) = [0x34]
   \<and> emitted keepAlive booted =
       emitted keepAlive (booted\<lparr>self := (self booted)\<lparr>p_channel := 16, p_power := 200\<rparr>\<rparr>)"
  using keepAlive_direction_only
    [of booted "booted\<lparr>self := (self booted)\<lparr>p_channel := 16, p_power := 200\<rparr>\<rparr>"]
  by (simp add: keepAlive_emitted booted_eq RX_def)

subsection \<open>startModem\<close>

lemma startModem_emitted:
  assumes "ub w = None" "unat c < 17" "t \<Longrightarrow> unat p < 11"
  shows "emitted (startModem c t p) w =
        [DigitalWrite (p_enable_pin (self w)) HIGH, SpiBegin, Delay 100,
         SpiBeginTransaction (SPISettings 8000000 MSBFIRST SPI_MODE0),
         DigitalWrite (p_enable_pin (self w)) LOW, SpiTransfer STOP,
         DigitalWrite (p_enable_pin (self w)) HIGH,
         DigitalWrite (p_enable_pin (self w)) LOW] @ map SpiTransfer initData @
        [DigitalWrite (p_enable_pin (self w)) HIGH,
         DigitalWrite (p_enable_pin (self w)) LOW, SpiTransfer PATABLE,
         SpiTransfer (if t then powers ! unat p else 0x89),
         DigitalWrite (p_enable_pin (self w)) HIGH,
         DigitalWrite (p_enable_pin (self w)) LOW, SpiTransfer CHAN,
         SpiTransfer (channels ! unat c),
         DigitalWrite (p_enable_pin (self w)) HIGH,
         DigitalWrite (p_enable_pin (self w)) LOW, SpiTransfer (if t then TX else RX),
         DigitalWrite (p_enable_pin (self w)) HIGH,
         SpiEndTransaction]"
  by (rule emitted_eq) (simp add: startModem_ok [OF assms])

lemma startModem_frames:
  assumes "ub w = None" "unat c < 17" "t \<Longrightarrow> unat p < 11"
  shows "frames (p_enable_pin (self w)) (emitted (startModem c t p) w) =
     Some [[STOP], initData, [PATABLE, if t then powers ! unat p else 0x89],
           [CHAN, channels ! unat c], [if t then TX else RX]]"
  by (simp add: startModem_emitted [OF assms] frames_def frames_from_transfers)

lemma delays_append: "delays (xs @ ys) = delays xs @ delays ys"
  by (induction xs rule: delays.induct) simp_all

lemma delays_transfers: "delays (map SpiTransfer xs) = []"
  by (induction xs) simp_all

text \<open>
  Claim C1. For every channel ordinal up to 16 and any power argument, \<open>startModem\<close> in
  receive direction completes and records exactly: the select line set high, the bus
  acquired, the 100 ms settle delay, the transaction opened, and then five select-line
  brackets holding, in order, the stop command, the 48 bytes of \<open>initData\<close>, the power
  register with 0x89, the channel register with the table entry of the channel, and the
  RX mode code; the only delay lies after \<open>SPI.begin\<close> and before the first bracket.
\<close>

theorem startModem_receive_sequence:
  assumes "ub w = None" "unat c \<le> 16"
  shows "ub (snd (run_state (startModem c False p) w)) = None
       \<and> emitted (startModem c False p) w =
          [DigitalWrite (p_enable_pin (self w)) HIGH, SpiBegin, Delay 100,
           SpiBeginTransaction (SPISettings 8000000 MSBFIRST SPI_MODE0),
           DigitalWrite (p_enable_pin (self w)) LOW, SpiTransfer STOP,
           DigitalWrite (p_enable_pin (self w)) HIGH,
           DigitalWrite (p_enable_pin (self w)) LOW] @ map SpiTransfer initData @
          [DigitalWrite (p_enable_pin (self w)) HIGH,
           DigitalWrite (p_enable_pin (self w)) LOW, SpiTransfer PATABLE, SpiTransfer 0x89,
           DigitalWrite (p_enable_pin (self w)) HIGH,
           DigitalWrite (p_enable_pin (self w)) LOW, SpiTransfer CHAN,
           SpiTransfer (channels ! unat c),
           DigitalWrite (p_enable_pin (self w)) HIGH,
           DigitalWrite (p_enable_pin (self w)) LOW, SpiTransfer RX,
           DigitalWrite (p_enable_pin (self w)) HIGH,
           SpiEndTransaction]
       \<and> frames (p_enable_pin (self w)) (emitted (startModem c False p) w) =
          Some [[STOP], initData, [PATABLE, 0x89], [CHAN, channels ! unat c], [RX]]
       \<and> length initData = 48
       \<and> delays (emitted (startModem c False p) w) = [100]"
proof -
  have c: "unat c < 17" using assms(2) by simp
  have "ub (snd (run_state (startModem c False p) w)) = None"
    using assms(1) c by (simp add: startModem_ok)
  moreover have "delays (emitted (startModem c False p) w) = [100]"
    using assms(1) c by (simp add: startModem_emitted delays_append delays_transfers)
  ultimately show ?thesis
    using assms(1) c startModem_emitted [of w c False p] startModem_frames [of w c False p]
    by (simp add: length_initData)
qed

theorem startModem_receive_sequence_witness:
  "ub booted = None \<and> unat (6 :: u8) \<le> 16
   \<and> ub (snd (run_state (startModem 6 False 0) booted)) = None
   \<and> frames 10 (emitted (startModem 6 False 0) booted) =
        Some [[0x36], initData, [0x3E, 0x89], [0x0A, 0x0F], [0x34]]
   \<and> delays (emitted (startModem 6 False 0) booted) = [100]"
proof -
  have h: "ub booted = None" "unat (6 :: u8) \<le> 16" by (simp_all add: booted_eq)
  have pin: "p_enable_pin (self booted) = 10" by (simp add: booted_eq)
  have ch: "channels ! unat (6 :: u8) = 0x0F" by (simp add: channels_def)
  note t = startModem_receive_sequence [OF h, of 0]
  from t have a: "ub (snd (run_state (startModem 6 False 0) booted)) = None" by (elim conjE)
  from t have f: "frames (p_enable_pin (self booted)) (emitted (startModem 6 False 0) booted) =
      Some [[STOP], initData, [PATABLE, 0x89], [CHAN, channels ! unat (6 :: u8)], [RX]]"
    by (elim conjE)
  from t have d: "delays (emitted (startModem 6 False 0) booted) = [100]" by (elim conjE)
  show ?thesis
    using h a d f unfolding pin ch by (simp add: STOP_def PATABLE_def CHAN_def RX_def)
qed

text \<open>
  Claim C2. For every channel ordinal up to 16 and power ordinal up to 10, \<open>startModem\<close>
  in transmit direction writes the power table's entry for the power to the power register
  and TX to the mode register; in receive direction it writes 0x89 to the power register
  whatever the power argument is, and RX to the mode register.
\<close>

theorem startModem_power_and_mode:
  assumes "ub w = None" "unat c \<le> 16" "unat p \<le> 10"
  shows "frames (p_enable_pin (self w)) (emitted (startModem c True p) w) =
           Some [[STOP], initData, [PATABLE, powers ! unat p], [CHAN, channels ! unat c], [TX]]
       \<and> (\<forall>q. frames (p_enable_pin (self w)) (emitted (startModem c False q) w) =
           Some [[STOP], initData, [PATABLE, 0x89], [CHAN, channels ! unat c], [RX]])"
proof -
  have c: "unat c < 17" and p: "unat p < 11" using assms by simp_all
  show ?thesis
    using assms(1) c p startModem_frames [of w c True p]
    by (simp add: startModem_frames)
qed

theorem startModem_power_and_mode_witness:
  "ub booted = None \<and> unat (16 :: u8) \<le> 16 \<and> unat (10 :: u8) \<le> 10
   \<and> frames 10 (emitted (startModem 16 True 10) booted) =
        Some [[0x36], initData, [0x3E, 0xC0], [0x0A, 0x37], [0x35]]
   \<and> frames 10 (emitted (startModem 16 False 200) booted) =
        Some [[0x36], initData, [0x3E, 0x89], [0x0A, 0x37], [0x34]]"
proof -
  have h: "ub booted = None" "unat (16 :: u8) \<le> 16" "unat (10 :: u8) \<le> 10"
    by (simp_all add: booted_eq)
  have pin: "p_enable_pin (self booted) = 10" by (simp add: booted_eq)
  have ch: "channels ! unat (16 :: u8) = 0x37" by (simp add: channels_def)
  have pw: "powers ! unat (10 :: u8) = 0xC0" by (simp add: powers_def)
  note t = startModem_power_and_mode [OF h]
  from t have a: "frames (p_enable_pin (self booted)) (emitted (startModem 16 True 10) booted) =
      Some [[STOP], initData, [PATABLE, powers ! unat (10 :: u8)],
            [CHAN, channels ! unat (16 :: u8)], [TX]]"
    by (elim conjE)
  from t have b: "frames (p_enable_pin (self booted)) (emitted (startModem 16 False 200) booted) =
      Some [[STOP], initData, [PATABLE, 0x89], [CHAN, channels ! unat (16 :: u8)], [RX]]"
    by (elim conjE) (erule allE)
  show ?thesis
    using h a b unfolding pin ch pw by (simp add: STOP_def PATABLE_def CHAN_def RX_def TX_def)
qed

subsection \<open>changeChannel\<close>

lemma changeChannel_emitted:
  assumes "ub w = None" "unat c < 17" "unat (p_power (self w)) < 11"
  shows "emitted (changeChannel c) w =
        [SpiBegin, SpiBeginTransaction (SPISettings 8000000 MSBFIRST SPI_MODE0),
         DigitalWrite (p_enable_pin (self w)) LOW, SpiTransfer STOP,
         DigitalWrite (p_enable_pin (self w)) HIGH,
         DigitalWrite (p_enable_pin (self w)) LOW, SpiTransfer PATABLE,
         SpiTransfer (powers ! unat (p_power (self w))),
         DigitalWrite (p_enable_pin (self w)) HIGH,
         DigitalWrite (p_enable_pin (self w)) LOW, SpiTransfer CHAN,
         SpiTransfer (channels ! unat c),
         DigitalWrite (p_enable_pin (self w)) HIGH,
         DigitalWrite (p_enable_pin (self w)) LOW,
         SpiTransfer (if p_transmit (self w) \<noteq> 0 then TX else RX),
         DigitalWrite (p_enable_pin (self w)) HIGH,
         SpiEndTransaction]"
  by (rule emitted_eq) (simp add: changeChannel_ok [OF assms])

lemma changeChannel_frames:
  assumes "ub w = None" "unat c < 17" "unat (p_power (self w)) < 11"
  shows "frames (p_enable_pin (self w)) (emitted (changeChannel c) w) =
     Some [[STOP], [PATABLE, powers ! unat (p_power (self w))],
           [CHAN, channels ! unat c], [if p_transmit (self w) \<noteq> 0 then TX else RX]]"
  by (simp add: changeChannel_emitted [OF assms] frames_def)

lemma after_start_receive:
  "snd (run_state (startModem 6 False 0) booted) =
     booted\<lparr>self := (self booted)\<lparr>p_channel := 6, p_transmit := 0, p_power := 0\<rparr>,
       calls := calls booted @ emitted (startModem 6 False 0) booted\<rparr>"
proof -
  have h: "ub booted = None" "unat (6 :: u8) < 17" by (simp_all add: booted_eq)
  show ?thesis by (simp add: startModem_ok [OF h] startModem_emitted [OF h])
qed

text \<open>
  Claim C3, at the sketch's own setting: after \<open>startModem(6, false, 0)\<close>, the call
  \<open>changeChannel(1)\<close> sends no configuration blob and no delay, and stores channel 1, but
  its power-register bracket carries \<open>powers[0] = 0x03\<close>, not the receive code 0x89 that
  \<open>startModem\<close> wrote: \<open>changeChannel\<close> reads \<open>powers[_power]\<close> whatever the direction.
\<close>

theorem changeChannel_receive_power:
  "frames 10 (emitted (changeChannel 1) (snd (run_state (startModem 6 False 0) booted))) =
     Some [[0x36], [0x3E, 0x03], [0x0A, 0x45], [0x34]]
   \<and> delays (emitted (changeChannel 1) (snd (run_state (startModem 6 False 0) booted))) = []
   \<and> p_channel (self (snd (run_state (changeChannel 1)
        (snd (run_state (startModem 6 False 0) booted))))) = 1"
proof -
  let ?w = "snd (run_state (startModem 6 False 0) booted)"
  have h: "ub ?w = None" "unat (1 :: u8) < 17" "unat (p_power (self ?w)) < 11"
    by (simp_all add: after_start_receive) (simp_all add: booted_eq)
  have pin: "p_enable_pin (self ?w) = 10" "p_transmit (self ?w) = 0" "p_power (self ?w) = 0"
    by (simp_all add: after_start_receive) (simp_all add: booted_eq)
  have "frames 10 (emitted (changeChannel 1) ?w) = Some [[0x36], [0x3E, 0x03], [0x0A, 0x45], [0x34]]"
    using changeChannel_frames [OF h] unfolding pin
    by (simp add: STOP_def PATABLE_def CHAN_def RX_def channels_def powers_def)
  moreover have "delays (emitted (changeChannel 1) ?w) = []"
    by (simp add: changeChannel_emitted [OF h])
  moreover have "p_channel (self (snd (run_state (changeChannel 1) ?w))) = 1"
    by (simp add: changeChannel_ok [OF h])
  ultimately show ?thesis by simp
qed

subsection \<open>Ordinals and the table bounds\<close>

lemma startModem_self:
  assumes "ub w = None"
  shows "self (snd (run_state (startModem c t p) w)) =
     (self w)\<lparr>p_channel := c, p_transmit := of_bool t, p_power := p\<rparr>"
proof (cases "unat c < 17")
  case False
  then show ?thesis using assms by (simp add: startModem_bad_channel)
next
  case c: True
  show ?thesis
  proof (cases "t \<and> \<not> unat p < 11")
    case True
    then show ?thesis using assms c by (simp add: startModem_bad_power)
  next
    case False
    then show ?thesis using startModem_ok [of w c t p] assms c by auto
  qed
qed

lemma startModem_ub:
  assumes "ub w = None"
  shows "ub (snd (run_state (startModem c t p) w)) =
     (if 16 < unat c then Some (OutOfBoundsRead (unat c) 17)
      else if t \<and> 10 < unat p then Some (OutOfBoundsRead (unat p) 11)
      else None)"
proof (cases "unat c < 17")
  case False
  then show ?thesis using assms by (simp add: startModem_bad_channel)
next
  case c: True
  show ?thesis
  proof (cases "t \<and> \<not> unat p < 11")
    case True
    then show ?thesis using assms c by (simp add: startModem_bad_power)
  next
    case False
    then show ?thesis using startModem_ok [of w c t p] assms c by auto
  qed
qed

lemma startModem_fault_calls:
  assumes "ub w = None" "16 < unat c \<or> (t \<and> 10 < unat p)"
  shows "calls (snd (run_state (startModem c t p) w)) = calls w"
proof (cases "unat c < 17")
  case False
  then show ?thesis using assms by (simp add: startModem_bad_channel)
next
  case True
  then have "t" "\<not> unat p < 11" using assms(2) by auto
  then show ?thesis using assms(1) True by (simp add: startModem_bad_power)
qed

lemma changeChannel_self:
  assumes "ub w = None"
  shows "self (snd (run_state (changeChannel c) w)) = (self w)\<lparr>p_channel := c\<rparr>"
proof (cases "unat c < 17")
  case False
  then show ?thesis using assms by (simp add: changeChannel_bad_channel)
next
  case c: True
  show ?thesis
    using assms c
    by (cases "unat (p_power (self w)) < 11") (simp_all add: changeChannel_ok changeChannel_bad_power)
qed

lemma changeChannel_ub:
  assumes "ub w = None"
  shows "ub (snd (run_state (changeChannel c) w)) =
     (if 16 < unat c then Some (OutOfBoundsRead (unat c) 17)
      else if 10 < unat (p_power (self w)) then Some (OutOfBoundsRead (unat (p_power (self w))) 11)
      else None)"
proof (cases "unat c < 17")
  case False
  then show ?thesis using assms by (simp add: changeChannel_bad_channel)
next
  case c: True
  show ?thesis
    using assms c
    by (cases "unat (p_power (self w)) < 11")
       (auto simp add: changeChannel_ok changeChannel_bad_power)
qed

lemma changeChannel_fault_calls:
  assumes "ub w = None" "16 < unat c \<or> 10 < unat (p_power (self w))"
  shows "calls (snd (run_state (changeChannel c) w)) = calls w"
proof (cases "unat c < 17")
  case False
  then show ?thesis using assms by (simp add: changeChannel_bad_channel)
next
  case True
  then have "\<not> unat (p_power (self w)) < 11" using assms(2) by auto
  then show ?thesis using assms(1) True by (simp add: changeChannel_bad_power)
qed

text \<open>
  Claim C9. \<open>startModem\<close> and \<open>changeChannel\<close> store their arguments in the handle before
  any table read and any bus call: for every input the members hold the arguments
  afterwards, and when an ordinal is out of range the run stops at the read past the end
  of the table with the members already overwritten and nothing yet sent to the bus.
  No input leaves the handle as it was by way of a rejection.
\<close>

theorem members_stored_before_lookup:
  assumes "ub w = None"
  shows "self (snd (run_state (startModem c t p) w)) =
           (self w)\<lparr>p_channel := c, p_transmit := of_bool t, p_power := p\<rparr>
       \<and> self (snd (run_state (changeChannel c) w)) = (self w)\<lparr>p_channel := c\<rparr>
       \<and> ub (snd (run_state (startModem c t p) w)) =
           (if 16 < unat c then Some (OutOfBoundsRead (unat c) 17)
            else if t \<and> 10 < unat p then Some (OutOfBoundsRead (unat p) 11)
            else None)
       \<and> ub (snd (run_state (changeChannel c) w)) =
           (if 16 < unat c then Some (OutOfBoundsRead (unat c) 17)
            else if 10 < unat (p_power (self w))
              then Some (OutOfBoundsRead (unat (p_power (self w))) 11)
            else None)
       \<and> (if 16 < unat c \<or> (t \<and> 10 < unat p)
           then calls (snd (run_state (startModem c t p) w)) = calls w
           else calls (snd (run_state (startModem c t p) w)) \<noteq> calls w)
       \<and> (if 16 < unat c \<or> 10 < unat (p_power (self w))
           then calls (snd (run_state (changeChannel c) w)) = calls w
           else calls (snd (run_state (changeChannel c) w)) \<noteq> calls w)"
proof -
  have sm: "if 16 < unat c \<or> (t \<and> 10 < unat p)
           then calls (snd (run_state (startModem c t p) w)) = calls w
           else calls (snd (run_state (startModem c t p) w)) \<noteq> calls w"
  proof (cases "16 < unat c \<or> (t \<and> 10 < unat p)")
    case True
    then show ?thesis using startModem_fault_calls [OF assms True] by simp
  next
    case False
    then show ?thesis using startModem_ok [of w c t p] assms by auto
  qed
  have cc: "if 16 < unat c \<or> 10 < unat (p_power (self w))
           then calls (snd (run_state (changeChannel c) w)) = calls w
           else calls (snd (run_state (changeChannel c) w)) \<noteq> calls w"
  proof (cases "16 < unat c \<or> 10 < unat (p_power (self w))")
    case True
    then show ?thesis using changeChannel_fault_calls [OF assms True] by simp
  next
    case False
    then show ?thesis using changeChannel_ok [of w c] assms by auto
  qed
  show ?thesis
    using startModem_self [OF assms, of c t p] changeChannel_self [OF assms, of c]
      startModem_ub [OF assms, of c t p] changeChannel_ub [OF assms, of c] sm cc
    by (intro conjI)
qed

theorem members_stored_before_lookup_witness:
  "ub booted = None
   \<and> self (snd (run_state (startModem 17 True 11) booted)) =
       \<lparr>p_enable_pin = 10, p_transmit = 1, p_channel = 17, p_power = 11\<rparr>
   \<and> ub (snd (run_state (startModem 17 True 11) booted)) = Some (OutOfBoundsRead 17 17)
   \<and> calls (snd (run_state (startModem 17 True 11) booted)) = calls booted
   \<and> self (snd (run_state (changeChannel 17) booted)) =
       \<lparr>p_enable_pin = 10, p_transmit = 0, p_channel = 17, p_power = 0\<rparr>
   \<and> ub (snd (run_state (changeChannel 17) booted)) = Some (OutOfBoundsRead 17 17)
   \<and> calls (snd (run_state (changeChannel 17) booted)) = calls booted"
proof -
  have h: "ub booted = None" by (simp add: booted_eq)
  have s: "self booted = \<lparr>p_enable_pin = 10, p_transmit = 0, p_channel = 0, p_power = 0\<rparr>"
    by (simp add: booted_eq)
  show ?thesis
    using h members_stored_before_lookup [OF h, of 17 True 11] unfolding s by simp
qed

text \<open>
  Claim C6 says that channel ordinal 17 and power ordinal 11 are rejected rather than used
  as an index past the tables. The code has no bounds check: at channel 17, and at power 11
  in transmit direction, \<open>startModem\<close> overwrites the members and then reads the table past
  its end.
\<close>

theorem ordinal_past_table_not_rejected:
  "\<not> rejected booted (snd (run_state (startModem 17 False 0) booted))
   \<and> ub (snd (run_state (startModem 17 False 0) booted)) = Some (OutOfBoundsRead 17 17)
   \<and> p_channel (self (snd (run_state (startModem 17 False 0) booted))) = 17
   \<and> \<not> rejected booted (snd (run_state (startModem 0 True 11) booted))
   \<and> ub (snd (run_state (startModem 0 True 11) booted)) = Some (OutOfBoundsRead 11 11)
   \<and> p_power (self (snd (run_state (startModem 0 True 11) booted))) = 11"
proof -
  have h: "ub booted = None" by (simp add: booted_eq)
  show ?thesis
    by (simp add: rejected_def startModem_ub [OF h] startModem_self [OF h])
qed

text \<open>
  Claim C6, amended. Channel ordinal 16 and power ordinal 10 resolve to the last entries of
  their tables (0x37 and 0xC0). Channel ordinal 17, and power ordinal 11 in transmit
  direction, are not rejected: \<open>startModem\<close> stores them in the handle and then reads the
  table one past its end. In receive direction power ordinal 11 is stored and no power
  entry is read.
\<close>

theorem table_bounds_unchecked:
  assumes "ub w = None"
  shows "frames (p_enable_pin (self w)) (emitted (startModem 16 True 10) w) =
           Some [[STOP], initData, [PATABLE, last powers], [CHAN, last channels], [TX]]
       \<and> last channels = 0x37 \<and> last powers = 0xC0
       \<and> snd (run_state (startModem 17 t p) w) =
           w\<lparr>self := (self w)\<lparr>p_channel := 17, p_transmit := of_bool t, p_power := p\<rparr>,
             ub := Some (OutOfBoundsRead 17 17)\<rparr>
       \<and> snd (run_state (startModem 16 True 11) w) =
           w\<lparr>self := (self w)\<lparr>p_channel := 16, p_transmit := 1, p_power := 11\<rparr>,
             ub := Some (OutOfBoundsRead 11 11)\<rparr>
       \<and> ub (snd (run_state (startModem 16 False 11) w)) = None
       \<and> p_power (self (snd (run_state (startModem 16 False 11) w))) = 11"
proof -
  have l: "last channels = channels ! unat (16 :: u8)" "last powers = powers ! unat (10 :: u8)"
    by (simp_all add: channels_def powers_def)
  have v: "last channels = 0x37" "last powers = 0xC0"
    by (simp_all add: channels_def powers_def)
  have f: "frames (p_enable_pin (self w)) (emitted (startModem 16 True 10) w) =
           Some [[STOP], initData, [PATABLE, last powers], [CHAN, last channels], [TX]]"
    unfolding l using assms by (simp add: startModem_frames)
  have a: "snd (run_state (startModem 17 t p) w) =
           w\<lparr>self := (self w)\<lparr>p_channel := 17, p_transmit := of_bool t, p_power := p\<rparr>,
             ub := Some (OutOfBoundsRead 17 17)\<rparr>"
    using startModem_bad_channel [OF assms, of 17 t p] by simp
  have b: "snd (run_state (startModem 16 True 11) w) =
           w\<lparr>self := (self w)\<lparr>p_channel := 16, p_transmit := 1, p_power := 11\<rparr>,
             ub := Some (OutOfBoundsRead 11 11)\<rparr>"
    using startModem_bad_power [OF assms, of 16 True 11] by simp
  have c: "ub (snd (run_state (startModem 16 False 11) w)) = None"
    using assms by (simp add: startModem_ub)
  have d: "p_power (self (snd (run_state (startModem 16 False 11) w))) = 11"
    using assms by (simp add: startModem_self)
  show ?thesis using f v a b c d by (intro conjI)
qed

theorem table_bounds_unchecked_witness:
  "ub booted = None
   \<and> frames 10 (emitted (startModem 16 True 10) booted) =
        Some [[0x36], initData, [0x3E, 0xC0], [0x0A, 0x37], [0x35]]
   \<and> ub (snd (run_state (startModem 17 True 10) booted)) = Some (OutOfBoundsRead 17 17)
   \<and> calls (snd (run_state (startModem 17 True 10) booted)) = [PinMode 10 OUTPUT]
   \<and> ub (snd (run_state (startModem 16 True 11) booted)) = Some (OutOfBoundsRead 11 11)"
proof -
  have h: "ub booted = None" by (simp add: booted_eq)
  have pin: "p_enable_pin (self booted) = 10" by (simp add: booted_eq)
  have cs: "calls booted = [PinMode 10 OUTPUT]" by (simp add: booted_eq)
  note t = table_bounds_unchecked [OF h, of True 10]
  note f = t [THEN conjunct1]
  note lc = t [THEN conjunct2, THEN conjunct1]
  note lp = t [THEN conjunct2, THEN conjunct2, THEN conjunct1]
  note a = t [THEN conjunct2, THEN conjunct2, THEN conjunct2, THEN conjunct1]
  note b = t [THEN conjunct2, THEN conjunct2, THEN conjunct2, THEN conjunct2, THEN conjunct1]
  have 1: "frames 10 (emitted (startModem 16 True 10) booted) =
        Some [[0x36], initData, [0x3E, 0xC0], [0x0A, 0x37], [0x35]]"
    using f by (simp add: pin lc lp STOP_def PATABLE_def CHAN_def TX_def)
  have 2: "ub (snd (run_state (startModem 17 True 10) booted)) = Some (OutOfBoundsRead 17 17)"
    by (subst a) simp
  have 3: "calls (snd (run_state (startModem 17 True 10) booted)) = [PinMode 10 OUTPUT]"
    by (subst a) (simp add: cs)
  have 4: "ub (snd (run_state (startModem 16 True 11) booted)) = Some (OutOfBoundsRead 11 11)"
    by (subst b) simp
  show ?thesis using h 1 2 3 4 by (intro conjI)
qed

subsection \<open>Bus discipline of every operation\<close>

lemma settings_used_transfers: "settings_used (map SpiTransfer xs @ es) = settings_used es"
  by (induction xs) simp_all

lemma select_line_transfers: "select_line pin v (map SpiTransfer xs @ es) = select_line pin v es"
  by (induction xs) simp_all

lemma txn_open_transfers: "txn_open b (map SpiTransfer xs @ es) = txn_open b es"
  by (induction xs) simp_all

lemma bytes_sent_transfers_append: "bytes_sent (map SpiTransfer xs @ es) = xs @ bytes_sent es"
  by (simp add: bytes_sent_append bytes_sent_transfers)

lemmas observer_simps = settings_used_transfers select_line_transfers txn_open_transfers
  bytes_sent_transfers_append frames_from_transfers frames_def

lemma startModem_discipline:
  assumes "ub w = None" "unat c < 17" "t \<longrightarrow> unat p < 11"
  shows "map_option concat (frames (p_enable_pin (self w)) (emitted (startModem c t p) w)) =
           Some (bytes_sent (emitted (startModem c t p) w))
       \<and> settings_used (emitted (startModem c t p) w) = [SPISettings 8000000 MSBFIRST SPI_MODE0]
       \<and> select_line (p_enable_pin (self w)) v (emitted (startModem c t p) w) = Some HIGH
       \<and> \<not> txn_open b (emitted (startModem c t p) w)"
  using assms by (simp add: startModem_emitted observer_simps)

lemma changeChannel_discipline:
  assumes "ub w = None" "unat c < 17" "unat (p_power (self w)) < 11"
  shows "map_option concat (frames (p_enable_pin (self w)) (emitted (changeChannel c) w)) =
           Some (bytes_sent (emitted (changeChannel c) w))
       \<and> settings_used (emitted (changeChannel c) w) = [SPISettings 8000000 MSBFIRST SPI_MODE0]
       \<and> select_line (p_enable_pin (self w)) v (emitted (changeChannel c) w) = Some HIGH
       \<and> \<not> txn_open b (emitted (changeChannel c) w)"
  using assms by (simp add: changeChannel_emitted observer_simps)

lemma keepAlive_discipline:
  assumes "ub w = None"
  shows "map_option concat (frames (p_enable_pin (self w)) (emitted keepAlive w)) =
           Some (bytes_sent (emitted keepAlive w))
       \<and> settings_used (emitted keepAlive w) = [SPISettings 8000000 MSBFIRST SPI_MODE0]
       \<and> select_line (p_enable_pin (self w)) v (emitted keepAlive w) = Some HIGH
       \<and> \<not> txn_open b (emitted keepAlive w)"
  using assms by (simp add: keepAlive_emitted observer_simps)

text \<open>
  Claim C8. Every operation that completes puts each byte on the bus inside a bracket of
  the select line (LOW before, HIGH after), opens its one SPI transaction with the same
  settings (8 MHz, MSB first, mode 0), and returns with the select line high and the
  transaction ended, whatever the line and the bus were before.
\<close>

theorem operations_bus_discipline:
  assumes "ub w = None" "ub (snd (run_state (exec x) w)) = None"
  shows "map_option concat (frames (p_enable_pin (self w)) (emitted (exec x) w)) =
           Some (bytes_sent (emitted (exec x) w))
       \<and> settings_used (emitted (exec x) w) = [SPISettings 8000000 MSBFIRST SPI_MODE0]
       \<and> select_line (p_enable_pin (self w)) v (emitted (exec x) w) = Some HIGH
       \<and> \<not> txn_open b (emitted (exec x) w)"
proof (cases x)
  case (StartModem c t p)
  with assms have "unat c < 17 \<and> (t \<longrightarrow> unat p < 11)"
    by (auto simp add: startModem_ub split: if_splits)
  with assms(1) StartModem show ?thesis
    using startModem_discipline [of w c t p v b] by simp
next
  case (ChangeChannel c)
  with assms have "unat c < 17 \<and> unat (p_power (self w)) < 11"
    by (auto simp add: changeChannel_ub split: if_splits)
  with assms(1) ChangeChannel show ?thesis
    using changeChannel_discipline [of w c v b] by simp
next
  case KeepAlive
  with assms(1) show ?thesis
    using keepAlive_discipline [of w v b] by simp
qed

theorem operations_bus_discipline_witness:
  "ub booted = None \<and> ub (snd (run_state (exec (StartModem 6 False 0)) booted)) = None
   \<and> bytes_sent (emitted (exec (StartModem 6 False 0)) booted) =
       [0x36] @ initData @ [0x3E, 0x89, 0x0A, 0x0F, 0x34]
   \<and> map_option concat (frames 10 (emitted (exec (StartModem 6 False 0)) booted)) =
       Some ([0x36] @ initData @ [0x3E, 0x89, 0x0A, 0x0F, 0x34])
   \<and> settings_used (emitted (exec (StartModem 6 False 0)) booted) =
       [SPISettings 8000000 MSBFIRST SPI_MODE0]
   \<and> select_line 10 (Some LOW) (emitted (exec (StartModem 6 False 0)) booted) = Some HIGH
   \<and> \<not> txn_open True (emitted (exec (StartModem 6 False 0)) booted)"
proof -
  have h: "ub booted = None" "ub (snd (run_state (exec (StartModem 6 False 0)) booted)) = None"
    by (simp_all add: booted_eq startModem_ub)
  have pin: "p_enable_pin (self booted) = 10" by (simp add: booted_eq)
  have bs: "bytes_sent (emitted (exec (StartModem 6 False 0)) booted) =
       [0x36] @ initData @ [0x3E, 0x89, 0x0A, 0x0F, 0x34]"
    using h(1) by (simp add: startModem_emitted observer_simps channels_def
        STOP_def PATABLE_def CHAN_def RX_def)
  note t = operations_bus_discipline [OF h, of "Some LOW" True]
  show ?thesis
    using h t unfolding pin bs by (intro conjI) simp_all
qed

subsection \<open>Sequences of operations\<close>

lemma frames_from_append:
  "frames_from pin cur a = Some fa \<Longrightarrow>
   frames_from pin cur (a @ b) = map_option ((@) fa) (frames_from pin None b)"
proof (induction pin cur a arbitrary: fa rule: frames_from.induct)
  case (1 pin cur)
  then show ?case by (cases cur) (simp_all add: option.map_ident)
next
  case (2 pin cur p es)
  then show ?case by (cases cur) (auto split: if_splits)
next
  case (3 pin cur p es)
  then show ?case by (cases cur; cases "frames_from pin None b") (auto split: if_splits)
next
  case (4 pin cur b es)
  then show ?case by (cases cur) auto
qed simp_all

lemma frames_append:
  "frames pin a = Some fa \<Longrightarrow> frames pin b = Some fb \<Longrightarrow> frames pin (a @ b) = Some (fa @ fb)"
  by (simp add: frames_def frames_from_append)

lemma reg_writes_append: "reg_writes r (xs @ ys) = reg_writes r xs @ reg_writes r ys"
  by (induction r xs rule: reg_writes.induct) simp_all

lemma mode_writes_append: "mode_writes (xs @ ys) = mode_writes xs @ mode_writes ys"
  by (induction xs rule: mode_writes.induct) simp_all

lemma exec_faulted: "ub w = Some e \<Longrightarrow> snd (run_state (exec x) w) = w"
  by (cases x) (simp_all add: startModem_faulted changeChannel_faulted keepAlive_faulted)

lemma run_Cons_snd:
  "snd (run_state (run (x # xs)) w) = snd (run_state (run xs) (snd (run_state (exec x) w)))"
  by (simp add: case_prod_beta)

lemma run_faulted: "ub w = Some e \<Longrightarrow> snd (run_state (run xs) w) = w"
proof (induction xs)
  case Nil
  show ?case by simp
next
  case (Cons x xs)
  then show ?case by (simp only: run_Cons_snd exec_faulted)
qed

lemma calls_emitted:
  "calls (snd (run_state m w)) = calls w @ es \<Longrightarrow>
   calls (snd (run_state m w)) = calls w @ emitted m w"
  by (simp add: emitted_def)

lemma exec_calls: "calls (snd (run_state (exec x) w)) = calls w @ emitted (exec x) w"
proof (cases "ub w")
  case (Some e)
  then have "calls (snd (run_state (exec x) w)) = calls w @ []" by (simp add: exec_faulted)
  then show ?thesis by (rule calls_emitted)
next
  case None
  show ?thesis
  proof (cases x)
    case (StartModem c t p)
    show ?thesis
    proof (cases "16 < unat c \<or> (t \<and> 10 < unat p)")
      case True
      then have "calls (snd (run_state (exec x) w)) = calls w @ []"
        using startModem_fault_calls [OF None True] StartModem by simp
      then show ?thesis by (rule calls_emitted)
    next
      case False
      then show ?thesis
        using None StartModem startModem_ok [of w c t p]
        by (intro calls_emitted [where es = "emitted (startModem c t p) w"])
           (auto simp add: startModem_emitted)
    qed
  next
    case (ChangeChannel c)
    show ?thesis
    proof (cases "16 < unat c \<or> 10 < unat (p_power (self w))")
      case True
      then have "calls (snd (run_state (exec x) w)) = calls w @ []"
        using changeChannel_fault_calls [OF None True] ChangeChannel by simp
      then show ?thesis by (rule calls_emitted)
    next
      case False
      then show ?thesis
        using None ChangeChannel changeChannel_ok [of w c]
        by (intro calls_emitted [where es = "emitted (changeChannel c) w"])
           (auto simp add: changeChannel_emitted)
    qed
  next
    case KeepAlive
    then show ?thesis
      using None keepAlive_ok [of w]
      by (intro calls_emitted [where es = "emitted keepAlive w"])
         (auto simp add: keepAlive_emitted)
  qed
qed

lemma run_calls: "calls (snd (run_state (run xs) w)) = calls w @ emitted (run xs) w"
proof (induction xs arbitrary: w)
  case Nil
  show ?case by (simp add: emitted_def)
next
  case (Cons x xs)
  have "calls (snd (run_state (run (x # xs)) w)) =
        calls w @ (emitted (exec x) w @ emitted (run xs) (snd (run_state (exec x) w)))"
    by (simp only: run_Cons_snd Cons.IH exec_calls append_assoc)
  then show ?case by (rule calls_emitted)
qed

lemma emitted_run_Cons:
  "emitted (run (x # xs)) w = emitted (exec x) w @ emitted (run xs) (snd (run_state (exec x) w))"
proof -
  have "calls (snd (run_state (run (x # xs)) w)) =
        calls w @ (emitted (exec x) w @ emitted (run xs) (snd (run_state (exec x) w)))"
    by (simp only: run_Cons_snd run_calls exec_calls append_assoc)
  then show ?thesis by (rule emitted_eq)
qed

lemma last_pushed_Cons: "last_pushed h (x # xs) = last_pushed (last_pushed h [x]) xs"
  by (cases x) simp_all

lemmas codes = RX_def TX_def STOP_def PATABLE_def CHAN_def

lemma startModem_agrees:
  "device_agrees (h\<lparr>p_channel := c, p_transmit := of_bool t, p_power := p\<rparr>)
     (pre @ [[STOP], initData, [PATABLE, if t then powers ! unat p else 0x89],
             [CHAN, channels ! unat c], [if t then TX else RX]])"
  by (simp add: device_agrees_def reg_writes_append mode_writes_append initData_def codes)

lemma changeChannel_agrees:
  "device_agrees h pre \<Longrightarrow>
   device_agrees (h\<lparr>p_channel := c\<rparr>)
     (pre @ [[STOP], [PATABLE, powers ! unat (p_power h)],
             [CHAN, channels ! unat c], [if p_transmit h \<noteq> 0 then TX else RX]])"
  by (auto simp add: device_agrees_def reg_writes_append mode_writes_append codes split: if_splits)

lemma keepAlive_agrees:
  "device_agrees h pre \<Longrightarrow>
   device_agrees h (pre @ [[if p_transmit h \<noteq> 0 then TX else RX]])"
  by (auto simp add: device_agrees_def reg_writes_append mode_writes_append codes split: if_splits)

lemma keepAlive_frames:
  assumes "ub w = None"
  shows "frames (p_enable_pin (self w)) (emitted keepAlive w) =
           Some [[if p_transmit (self w) \<noteq> 0 then TX else RX]]"
  using assms by (simp add: keepAlive_emitted frames_def)

lemma exec_agrees:
  assumes "ub w = None" "ub (snd (run_state (exec x) w)) = None" "device_agrees (self w) pre"
  shows "\<exists>fs. frames (p_enable_pin (self w)) (emitted (exec x) w) = Some fs
            \<and> device_agrees (self (snd (run_state (exec x) w))) (pre @ fs)
            \<and> self (snd (run_state (exec x) w)) = last_pushed (self w) [x]"
proof (cases x)
  case (StartModem c t p)
  with assms have v: "unat c < 17" "t \<Longrightarrow> unat p < 11"
    by (auto simp add: startModem_ub split: if_splits)
  show ?thesis
    using StartModem startModem_frames [OF assms(1) v] startModem_self [OF assms(1), of c t p]
      startModem_agrees [where h = "self w" and c = c and t = t and p = p and pre = pre]
    by simp
next
  case (ChangeChannel c)
  with assms have v: "unat c < 17" "unat (p_power (self w)) < 11"
    by (auto simp add: changeChannel_ub split: if_splits)
  show ?thesis
    using ChangeChannel changeChannel_frames [OF assms(1) v] changeChannel_self [OF assms(1), of c]
      changeChannel_agrees [OF assms(3), of c]
    by simp
next
  case KeepAlive
  show ?thesis
    using KeepAlive keepAlive_frames [OF assms(1)] keepAlive_agrees [OF assms(3)]
      keepAlive_keeps [of w]
    by simp
qed

lemma exec_pin:
  "p_enable_pin (self (snd (run_state (exec x) w))) = p_enable_pin (self w)"
proof (cases "ub w")
  case (Some e)
  then show ?thesis by (simp add: exec_faulted)
next
  case None
  then show ?thesis
    using keepAlive_keeps [of w]
    by (cases x) (simp_all add: startModem_self changeChannel_self)
qed

lemma run_agrees:
  assumes "ub w = None" "ub (snd (run_state (run xs) w)) = None" "device_agrees (self w) pre"
  shows "\<exists>fs. frames (p_enable_pin (self w)) (emitted (run xs) w) = Some fs
            \<and> device_agrees (self (snd (run_state (run xs) w))) (pre @ fs)
            \<and> self (snd (run_state (run xs) w)) = last_pushed (self w) xs"
  using assms
proof (induction xs arbitrary: w pre)
  case Nil
  then show ?case by (simp add: emitted_def frames_def)
next
  case (Cons x xs)
  let ?w1 = "snd (run_state (exec x) w)"
  have fin: "ub (snd (run_state (run xs) ?w1)) = None"
    using Cons.prems(2) by (simp only: run_Cons_snd)
  have u1: "ub ?w1 = None"
  proof (cases "ub ?w1")
    case None
    then show ?thesis .
  next
    case (Some e)
    then show ?thesis using fin run_faulted [OF Some, of xs] by simp
  qed
  from exec_agrees [OF Cons.prems(1) u1 Cons.prems(3)]
  obtain f1 where f1: "frames (p_enable_pin (self w)) (emitted (exec x) w) = Some f1"
    and a1: "device_agrees (self ?w1) (pre @ f1)"
    and s1: "self ?w1 = last_pushed (self w) [x]"
    by blast
  from Cons.IH [OF u1 fin a1]
  obtain f2 where f2: "frames (p_enable_pin (self ?w1)) (emitted (run xs) ?w1) = Some f2"
    and a2: "device_agrees (self (snd (run_state (run xs) ?w1))) ((pre @ f1) @ f2)"
    and s2: "self (snd (run_state (run xs) ?w1)) = last_pushed (self ?w1) xs"
    by blast
  have "frames (p_enable_pin (self w)) (emitted (run (x # xs)) w) = Some (f1 @ f2)"
    using f1 f2 by (simp only: emitted_run_Cons exec_pin frames_append)
  moreover have "device_agrees (self (snd (run_state (run (x # xs)) w))) (pre @ f1 @ f2)"
    using a2 by (simp only: run_Cons_snd append_assoc)
  moreover have "self (snd (run_state (run (x # xs)) w)) = last_pushed (self w) (x # xs)"
    using s2 s1 last_pushed_Cons [of "self w" x xs] by (simp only: run_Cons_snd)
  ultimately show ?case by blast
qed

lemma run_single_snd: "snd (run_state (run [x]) w) = snd (run_state (exec x) w)"
  by (simp only: run_Cons_snd) simp

lemma emitted_run_single: "emitted (run [x]) w = emitted (exec x) w"
  by (simp only: emitted_run_Cons) (simp add: emitted_def)

text \<open>
  Claim C7 says that the stored power, too, is the value last pushed to the device. In
  receive direction it is not: after \<open>startModem(6, false, 0)\<close> the handle stores power 0,
  whose table entry is 0x03, while the only power-register write on the bus carries the
  fixed receive code 0x89.
\<close>

theorem receive_power_not_pushed:
  "ub (snd (run_state (run [StartModem 6 False 0]) booted)) = None
   \<and> p_power (self (snd (run_state (run [StartModem 6 False 0]) booted))) = 0
   \<and> powers ! unat (p_power (self (snd (run_state (run [StartModem 6 False 0]) booted)))) = 0x03
   \<and> frames 10 (emitted (run [StartModem 6 False 0]) booted) =
        Some [[0x36], initData, [0x3E, 0x89], [0x0A, 0x0F], [0x34]]
   \<and> reg_writes PATABLE [[0x36], initData, [0x3E, 0x89], [0x0A, 0x0F], [0x34]] = [0x89]
   \<and> \<not> power_pushed (self (snd (run_state (run [StartModem 6 False 0]) booted)))
         [[0x36], initData, [0x3E, 0x89], [0x0A, 0x0F], [0x34]]"
proof -
  have h: "ub booted = None" "unat (6 :: u8) < 17" by (simp_all add: booted_eq)
  have pin: "p_enable_pin (self booted) = 10" by (simp add: booted_eq)
  have u: "ub (snd (run_state (run [StartModem 6 False 0]) booted)) = None"
    using h(1) by (simp only: run_single_snd exec.simps) (simp add: startModem_ub)
  have s: "p_power (self (snd (run_state (run [StartModem 6 False 0]) booted))) = 0"
    using h(1) by (simp only: run_single_snd exec.simps) (simp add: startModem_self)
  have t: "powers ! unat (0 :: u8) = 0x03" by (simp add: powers_def)
  have f: "frames 10 (emitted (run [StartModem 6 False 0]) booted) =
        Some [[0x36], initData, [0x3E, 0x89], [0x0A, 0x0F], [0x34]]"
    using startModem_frames [OF h, of False 0] unfolding pin
    by (simp only: emitted_run_single exec.simps) (simp add: channels_def codes)
  have r: "reg_writes PATABLE [[0x36], initData, [0x3E, 0x89], [0x0A, 0x0F], [0x34]] = [0x89]"
    by (simp add: initData_def codes)
  have n: "\<not> power_pushed (self (snd (run_state (run [StartModem 6 False 0]) booted)))
         [[0x36], initData, [0x3E, 0x89], [0x0A, 0x0F], [0x34]]"
    unfolding power_pushed_def r s t by simp
  show ?thesis using u s t f r n unfolding s by (intro conjI)
qed

text \<open>
  Claim C7, amended. After every completed sequence of operations that begins with
  \<open>startModem\<close>, the handle holds what the operations stored (\<open>startModem\<close> its three
  arguments, \<open>changeChannel\<close> the new channel only, \<open>keepAlive\<close> nothing). The stored
  direction and channel are the values last pushed to the device, and in transmit
  direction so is the stored power: the bus traffic of the sequence is well framed, its
  last channel-register write is the table entry of the stored channel, its last mode code
  is that of the stored direction, and in transmit direction its last power-register write
  is the table entry of the stored power.
\<close>

theorem members_track_operations:
  assumes "ub w = None"
    and "ub (snd (run_state (run (StartModem c t p # xs)) w)) = None"
  shows "self (snd (run_state (run (StartModem c t p # xs)) w)) =
           last_pushed (self w) (StartModem c t p # xs)
       \<and> (case frames (p_enable_pin (self w)) (emitted (run (StartModem c t p # xs)) w) of
             None \<Rightarrow> False
           | Some fs \<Rightarrow>
               device_agrees (self (snd (run_state (run (StartModem c t p # xs)) w))) fs)"
proof -
  let ?x = "StartModem c t p"
  let ?w1 = "snd (run_state (exec ?x) w)"
  have fin: "ub (snd (run_state (run xs) ?w1)) = None"
    using assms(2) by (simp only: run_Cons_snd)
  have u1: "ub ?w1 = None"
  proof (cases "ub ?w1")
    case None
    then show ?thesis .
  next
    case (Some e)
    then show ?thesis using fin run_faulted [OF Some, of xs] by simp
  qed
  have v: "unat c < 17" "t \<Longrightarrow> unat p < 11"
    using u1 assms(1) by (auto simp add: startModem_ub split: if_splits)
  have f1: "frames (p_enable_pin (self w)) (emitted (exec ?x) w) =
      Some [[STOP], initData, [PATABLE, if t then powers ! unat p else 0x89],
            [CHAN, channels ! unat c], [if t then TX else RX]]"
    using startModem_frames [OF assms(1) v] by simp
  have s1: "self ?w1 = last_pushed (self w) [?x]"
    using startModem_self [OF assms(1), of c t p] by simp
  have a1: "device_agrees (self ?w1)
      ([] @ [[STOP], initData, [PATABLE, if t then powers ! unat p else 0x89],
            [CHAN, channels ! unat c], [if t then TX else RX]])"
    using startModem_agrees [where h = "self w" and c = c and t = t and p = p and pre = "[]"] startModem_self [OF assms(1), of c t p]
    by simp
  from run_agrees [OF u1 fin a1]
  obtain f2 where f2: "frames (p_enable_pin (self ?w1)) (emitted (run xs) ?w1) = Some f2"
    and a2: "device_agrees (self (snd (run_state (run xs) ?w1)))
      (([] @ [[STOP], initData, [PATABLE, if t then powers ! unat p else 0x89],
            [CHAN, channels ! unat c], [if t then TX else RX]]) @ f2)"
    and s2: "self (snd (run_state (run xs) ?w1)) = last_pushed (self ?w1) xs"
    by blast
  have fr: "frames (p_enable_pin (self w)) (emitted (run (?x # xs)) w) =
      Some ([[STOP], initData, [PATABLE, if t then powers ! unat p else 0x89],
            [CHAN, channels ! unat c], [if t then TX else RX]] @ f2)"
    using f1 f2 by (simp only: emitted_run_Cons exec_pin frames_append)
  have "self (snd (run_state (run (?x # xs)) w)) = last_pushed (self w) (?x # xs)"
    using s2 s1 last_pushed_Cons [of "self w" ?x xs] by (simp only: run_Cons_snd)
  moreover have "device_agrees (self (snd (run_state (run (?x # xs)) w)))
      ([[STOP], initData, [PATABLE, if t then powers ! unat p else 0x89],
            [CHAN, channels ! unat c], [if t then TX else RX]] @ f2)"
    using a2 by (simp only: run_Cons_snd append_Nil)
  ultimately show ?thesis by (simp only: fr option.case)
qed

theorem members_track_operations_witness:
  "ub booted = None
   \<and> ub (snd (run_state (run [StartModem 6 True 3, KeepAlive, ChangeChannel 16, KeepAlive])
          booted)) = None
   \<and> self (snd (run_state (run [StartModem 6 True 3, KeepAlive, ChangeChannel 16, KeepAlive])
          booted)) = \<lparr>p_enable_pin = 10, p_transmit = 1, p_channel = 16, p_power = 3\<rparr>
   \<and> (case frames 10
          (emitted (run [StartModem 6 True 3, KeepAlive, ChangeChannel 16, KeepAlive]) booted) of
         None \<Rightarrow> False
       | Some fs \<Rightarrow>
           device_agrees \<lparr>p_enable_pin = 10, p_transmit = 1, p_channel = 16, p_power = 3\<rparr> fs)"
proof -
  let ?xs = "[StartModem 6 True 3, KeepAlive, ChangeChannel 16, KeepAlive]"
  have h: "ub booted = None" by (simp add: booted_eq)
  have s: "self booted = \<lparr>p_enable_pin = 10, p_transmit = 0, p_channel = 0, p_power = 0\<rparr>"
    by (simp add: booted_eq)
  have u: "ub (snd (run_state (run ?xs) booted)) = None"
    by (simp add: booted_eq startModem_ok keepAlive_ok changeChannel_ok case_prod_beta)
  note t = members_track_operations [OF h u]
  have e: "self (snd (run_state (run ?xs) booted)) =
      \<lparr>p_enable_pin = 10, p_transmit = 1, p_channel = 16, p_power = 3\<rparr>"
    using t [THEN conjunct1] by (simp add: s)
  have pin: "p_enable_pin (self booted) = 10" by (simp add: s)
  have d: "case frames 10 (emitted (run ?xs) booted) of
         None \<Rightarrow> False
       | Some fs \<Rightarrow>
           device_agrees \<lparr>p_enable_pin = 10, p_transmit = 1, p_channel = 16, p_power = 3\<rparr> fs"
    using t [THEN conjunct2] unfolding e pin .
  show ?thesis
    using h u e d by (intro conjI)
qed

end
